theory Spec2Isabelle
  imports Main
begin

section \<open>Session manager and action dispatcher of open-operator\<close>

text \<open>
  The development embeds two TypeScript modules: \<^verbatim>\<open>sessionManager.ts\<close>
  (\<^verbatim>\<open>createSession\<close>, \<^verbatim>\<open>endSession\<close>, \<^verbatim>\<open>getDebugInfo\<close>,
  \<^verbatim>\<open>getSession\<close> over the module-level \<^verbatim>\<open>sessions\<close> map) and
  \<^verbatim>\<open>playwrightRunner.ts\<close> (\<^verbatim>\<open>runPlaywright\<close>).

  The browser driver (Playwright) and the id generator (\<^verbatim>\<open>uuidv4\<close>) are external.
  Every call of the code into them is appended to a trace, and what the call answers
  is read from a \<open>driver\<close>: a record of functions indexed by the number of external
  calls made so far. A theorem that holds for every driver holds for every way the
  browser can behave, failures and timeouts included.

  Each exported function runs from its call to its return without interleaving: the
  model is sequential.
\<close>

subsection \<open>Strings\<close>

text \<open>
  A JavaScript string is modelled as a \<open>string\<close> whose characters are the code points
  0 to 255. \<^verbatim>\<open>startsWith\<close>, \<^verbatim>\<open>replace\<close> with a string pattern (first
  occurrence only), \<^verbatim>\<open>trim\<close>, \<^verbatim>\<open>split\<close> on a one-character separator and
  \<^verbatim>\<open>join\<close> follow ECMAScript.
\<close>

definition startsWith :: "string \<Rightarrow> string \<Rightarrow> bool" where
  "startsWith p s = (take (length p) s = p)"

fun js_replace :: "string \<Rightarrow> string \<Rightarrow> string \<Rightarrow> string" where
  "js_replace pat rep [] = (if pat = [] then rep else [])"
| "js_replace pat rep (c # cs) =
     (if take (length pat) (c # cs) = pat then rep @ drop (length pat) (c # cs)
      else c # js_replace pat rep cs)"

definition isWhiteSpace :: "char \<Rightarrow> bool" where
  "isWhiteSpace c = ((of_char c :: nat) \<in> {9, 10, 11, 12, 13, 32, 160})"

definition js_trim :: "string \<Rightarrow> string" where
  "js_trim s = rev (dropWhile isWhiteSpace (rev (dropWhile isWhiteSpace s)))"

fun js_split :: "char \<Rightarrow> string \<Rightarrow> string list" where
  "js_split sep [] = [[]]"
| "js_split sep (c # cs) =
     (if c = sep then [] # js_split sep cs
      else (case js_split sep cs of [] \<Rightarrow> [[c]] | t # ts \<Rightarrow> (c # t) # ts))"

fun js_join :: "string \<Rightarrow> string list \<Rightarrow> string" where
  "js_join sep [] = []"
| "js_join sep [t] = t"
| "js_join sep (t # u # ts) = t @ sep @ js_join sep (u # ts)"

text \<open>\<^verbatim>\<open>xs[i]\<close> on an array: \<^verbatim>\<open>undefined\<close> out of range.\<close>

definition element :: "'a list \<Rightarrow> nat \<Rightarrow> 'a option" where
  "element xs i = (if i < length xs then Some (xs ! i) else None)"

subsection \<open>Data model\<close>

datatype browser_handle = Browser nat
datatype context_handle = BrowserContext nat
datatype page_handle = Page nat

text \<open>\<^verbatim>\<open>interface Session { browser; context; page }\<close>\<close>

record session =
  s_browser :: browser_handle
  s_context :: context_handle
  s_page :: page_handle

text \<open>
  Thrown values. \<open>Error msg\<close> is \<^verbatim>\<open>new Error(msg)\<close>; \<open>TypeError\<close> is what
  destructuring \<^verbatim>\<open>undefined\<close> throws (its message depends on the engine);
  \<open>DriverError msg\<close> is whatever an external call rejects with.
\<close>

datatype error = Error string | TypeError | DriverError string

datatype Method = GOTO | ACT | EXTRACT | OBSERVE | CLOSE | SCREENSHOT | WAIT | NAVBACK

text \<open>\<open>Number s\<close> stands for the value of \<^verbatim>\<open>Number(s)\<close>; the conversion is kept symbolic.\<close>

datatype jsnumber = Number string

text \<open>The external calls, with their arguments.\<close>

datatype call =
    Uuidv4
  | Launch
  | NewContext browser_handle
  | NewPage context_handle
  | ContextClose context_handle
  | BrowserClose browser_handle
  | Goto page_handle string
  | Click page_handle string
  | Fill page_handle "string option" string
  | EvalTextContent page_handle string
  | WaitForSelector page_handle string
  | Screenshot page_handle
  | ScreenshotBase64 page_handle
  | WaitForTimeout page_handle jsnumber
  | GoBack page_handle

text \<open>
  What \<^verbatim>\<open>runPlaywright\<close> resolves to: \<^verbatim>\<open>undefined\<close>, the text content
  (\<open>None\<close> is \<^verbatim>\<open>null\<close>), \<^verbatim>\<open>{ observed: instruction }\<close>, or the screenshot buffer
  rendered by \<^verbatim>\<open>toString('base64')\<close> (\<open>Base64 b\<close>, the encoding kept symbolic).
\<close>

datatype result = Undefined | TextContent "string option" | Observed string | Base64 string

text \<open>The answers of the external world; the first argument is the time of the call.\<close>

record driver =
  uuidv4 :: "nat \<Rightarrow> string"
  launch :: "nat \<Rightarrow> error + browser_handle"
  newContext :: "nat \<Rightarrow> browser_handle \<Rightarrow> error + context_handle"
  newPage :: "nat \<Rightarrow> context_handle \<Rightarrow> error + page_handle"
  context_close :: "nat \<Rightarrow> context_handle \<Rightarrow> error option"
  browser_close :: "nat \<Rightarrow> browser_handle \<Rightarrow> error option"
  page_goto :: "nat \<Rightarrow> page_handle \<Rightarrow> string \<Rightarrow> error option"
  page_click :: "nat \<Rightarrow> page_handle \<Rightarrow> string \<Rightarrow> error option"
  page_fill :: "nat \<Rightarrow> page_handle \<Rightarrow> string option \<Rightarrow> string \<Rightarrow> error option"
  page_eval_textContent :: "nat \<Rightarrow> page_handle \<Rightarrow> string \<Rightarrow> error + string option"
  page_waitForSelector :: "nat \<Rightarrow> page_handle \<Rightarrow> string \<Rightarrow> error option"
  page_screenshot :: "nat \<Rightarrow> page_handle \<Rightarrow> error + string"
  page_waitForTimeout :: "nat \<Rightarrow> page_handle \<Rightarrow> jsnumber \<Rightarrow> error option"
  page_goBack :: "nat \<Rightarrow> page_handle \<Rightarrow> error option"

text \<open>The module state: the \<^verbatim>\<open>sessions\<close> map, and the trace of external calls.\<close>

record world =
  sessions :: "string \<rightharpoonup> session"
  trace :: "call list"

definition init :: world where
  "init = \<lparr>sessions = Map.empty, trace = []\<rparr>"

definition now :: "world \<Rightarrow> nat" where
  "now w = length (trace w)"

definition invoke :: "call \<Rightarrow> world \<Rightarrow> world" where
  "invoke c w = w\<lparr>trace := trace w @ [c]\<rparr>"

subsection \<open>sessionManager.ts\<close>

definition createSession :: "driver \<Rightarrow> world \<Rightarrow> (error + string) \<times> world" where
  "createSession d w =
     (let sessionId = uuidv4 d (now w); w0 = invoke Uuidv4 w in
      case launch d (now w0) of
        Inl e \<Rightarrow> (Inl e, invoke Launch w0)
      | Inr b \<Rightarrow>
          (let w1 = invoke Launch w0 in
           case newContext d (now w1) b of
             Inl e \<Rightarrow> (Inl e, invoke (NewContext b) w1)
           | Inr c \<Rightarrow>
               (let w2 = invoke (NewContext b) w1 in
                case newPage d (now w2) c of
                  Inl e \<Rightarrow> (Inl e, invoke (NewPage c) w2)
                | Inr p \<Rightarrow>
                    (let w3 = invoke (NewPage c) w2 in
                     (Inr sessionId,
                      w3\<lparr>sessions := (sessions w3)(sessionId \<mapsto>
                        \<lparr>s_browser = b, s_context = c, s_page = p\<rparr>)\<rparr>)))))"

definition endSession :: "driver \<Rightarrow> world \<Rightarrow> string \<Rightarrow> (error + unit) \<times> world" where
  "endSession d w sessionId =
     (case sessions w sessionId of
        None \<Rightarrow> (Inr (), w)
      | Some s \<Rightarrow>
          (let w1 = invoke (ContextClose (s_context s)) w in
           case context_close d (now w) (s_context s) of
             Some e \<Rightarrow> (Inl e, w1)
           | None \<Rightarrow>
               (let w2 = invoke (BrowserClose (s_browser s)) w1 in
                case browser_close d (now w1) (s_browser s) of
                  Some e \<Rightarrow> (Inl e, w2)
                | None \<Rightarrow> (Inr (), w2\<lparr>sessions := (sessions w2)(sessionId := None)\<rparr>))))"

text \<open>The result is \<open>Some s\<close> for \<^verbatim>\<open>{ screenshot: s }\<close> and \<open>None\<close> for \<^verbatim>\<open>{}\<close>.\<close>

definition getDebugInfo :: "driver \<Rightarrow> world \<Rightarrow> string \<Rightarrow> (error + string option) \<times> world" where
  "getDebugInfo d w sessionId =
     (case sessions w sessionId of
        Some s \<Rightarrow>
          (case page_screenshot d (now w) (s_page s) of
             Inl e \<Rightarrow> (Inl e, invoke (ScreenshotBase64 (s_page s)) w)
           | Inr screenshot \<Rightarrow> (Inr (Some screenshot), invoke (ScreenshotBase64 (s_page s)) w))
      | None \<Rightarrow> (Inr None, w))"

definition getSession :: "world \<Rightarrow> string \<Rightarrow> session option" where
  "getSession w sessionId = sessions w sessionId"

subsection \<open>playwrightRunner.ts\<close>

text \<open>\<^verbatim>\<open>!instruction\<close>: true of \<^verbatim>\<open>undefined\<close> and of the empty string.\<close>

definition falsy :: "string option \<Rightarrow> bool" where
  "falsy instruction = (case instruction of None \<Rightarrow> True | Some i \<Rightarrow> i = [])"

text \<open>A call that resolves to nothing: record it, then fail or go on to \<^verbatim>\<open>break\<close>.\<close>

definition await_break :: "error option \<Rightarrow> call \<Rightarrow> world \<Rightarrow> (error + result) \<times> world" where
  "await_break answer c w =
     (case answer of Some e \<Rightarrow> (Inl e, invoke c w) | None \<Rightarrow> (Inr Undefined, invoke c w))"

text \<open>The \<^verbatim>\<open>ACT\<close> branch after its check, on a truthy instruction.\<close>

definition act :: "driver \<Rightarrow> world \<Rightarrow> page_handle \<Rightarrow> string \<Rightarrow> (error + result) \<times> world" where
  "act d w page instruction =
     (if startsWith ''click'' instruction then
        (let selector = js_trim (js_replace ''click'' '''' instruction) in
         await_break (page_click d (now w) page selector) (Click page selector) w)
      else if startsWith ''type'' instruction then
        (let parts = js_split CHR '' '' instruction;
             selector = element parts 1;
             textParts = drop 2 parts;
             text = js_join '' '' textParts in
         await_break (page_fill d (now w) page selector text) (Fill page selector text) w)
      else (Inr Undefined, w))"

text \<open>
  The body of the \<^verbatim>\<open>try\<close> block: the \<^verbatim>\<open>switch\<close> on the method. In a branch
  that checks \<^verbatim>\<open>!instruction\<close>, the inner \<open>None\<close> case only makes the match total:
  \<open>falsy None\<close> holds, so the check has already thrown.
\<close>

definition try_block ::
  "driver \<Rightarrow> world \<Rightarrow> string \<Rightarrow> page_handle \<Rightarrow> Method \<Rightarrow> string option \<Rightarrow> (error + result) \<times> world" where
  "try_block d w sessionID page m instruction =
     (case m of
        GOTO \<Rightarrow>
          (if falsy instruction then (Inl (Error ''Missing URL in instruction''), w)
           else (case instruction of
                   None \<Rightarrow> (Inl (Error ''Missing URL in instruction''), w)
                 | Some i \<Rightarrow> await_break (page_goto d (now w) page i) (Goto page i) w))
      | ACT \<Rightarrow>
          (if falsy instruction then (Inl (Error ''Missing action instruction''), w)
           else (case instruction of
                   None \<Rightarrow> (Inl (Error ''Missing action instruction''), w)
                 | Some i \<Rightarrow> act d w page i))
      | EXTRACT \<Rightarrow>
          (if falsy instruction then (Inl (Error ''Missing extraction instruction''), w)
           else (case instruction of
                   None \<Rightarrow> (Inl (Error ''Missing extraction instruction''), w)
                 | Some i \<Rightarrow>
                     (case page_eval_textContent d (now w) page i of
                        Inl e \<Rightarrow> (Inl e, invoke (EvalTextContent page i) w)
                      | Inr t \<Rightarrow> (Inr (TextContent t), invoke (EvalTextContent page i) w))))
      | OBSERVE \<Rightarrow>
          (if falsy instruction then (Inl (Error ''Missing observation instruction''), w)
           else (case instruction of
                   None \<Rightarrow> (Inl (Error ''Missing observation instruction''), w)
                 | Some i \<Rightarrow>
                     (case page_waitForSelector d (now w) page i of
                        Some e \<Rightarrow> (Inl e, invoke (WaitForSelector page i) w)
                      | None \<Rightarrow> (Inr (Observed i), invoke (WaitForSelector page i) w))))
      | SCREENSHOT \<Rightarrow>
          (case page_screenshot d (now w) page of
             Inl e \<Rightarrow> (Inl e, invoke (Screenshot page) w)
           | Inr buf \<Rightarrow> (Inr (Base64 buf), invoke (Screenshot page) w))
      | WAIT \<Rightarrow>
          (if falsy instruction then (Inl (Error ''Missing wait duration''), w)
           else (case instruction of
                   None \<Rightarrow> (Inl (Error ''Missing wait duration''), w)
                 | Some i \<Rightarrow>
                     await_break (page_waitForTimeout d (now w) page (Number i))
                       (WaitForTimeout page (Number i)) w))
      | NAVBACK \<Rightarrow> await_break (page_goBack d (now w) page) (GoBack page) w
      | CLOSE \<Rightarrow>
          (case endSession d w sessionID of
             (Inl e, w1) \<Rightarrow> (Inl e, w1)
           | (Inr u, w1) \<Rightarrow> (Inr Undefined, w1)))"

text \<open>
  \<^verbatim>\<open>const { page } = getSession(sessionID)\<close> throws a \<open>TypeError\<close> when the lookup
  gives \<^verbatim>\<open>undefined\<close>, before the \<^verbatim>\<open>try\<close> is entered. The \<^verbatim>\<open>catch\<close> awaits
  \<^verbatim>\<open>endSession\<close> and then throws the caught error; when \<^verbatim>\<open>endSession\<close> itself
  throws, that is the error which leaves \<^verbatim>\<open>runPlaywright\<close>.
\<close>

definition runPlaywright ::
  "driver \<Rightarrow> world \<Rightarrow> string \<Rightarrow> Method \<Rightarrow> string option \<Rightarrow> (error + result) \<times> world" where
  "runPlaywright d w sessionID m instruction =
     (case getSession w sessionID of
        None \<Rightarrow> (Inl TypeError, w)
      | Some s \<Rightarrow>
          (case try_block d w sessionID (s_page s) m instruction of
             (Inr v, w1) \<Rightarrow> (Inr v, w1)
           | (Inl error, w1) \<Rightarrow>
               (case endSession d w1 sessionID of
                  (Inl e2, w2) \<Rightarrow> (Inl e2, w2)
                | (Inr u, w2) \<Rightarrow> (Inl error, w2))))"


subsection \<open>Auxiliary definitions for the statements\<close>

text \<open>
  The message thrown by the instruction check of each method, as written in the
  branches of the \<^verbatim>\<open>switch\<close>; \<open>None\<close> for the methods that have no such check.
\<close>


fun missing_message :: "Method \<Rightarrow> string option" where
  "missing_message GOTO = Some ''Missing URL in instruction''"
| "missing_message ACT = Some ''Missing action instruction''"
| "missing_message EXTRACT = Some ''Missing extraction instruction''"
| "missing_message OBSERVE = Some ''Missing observation instruction''"
| "missing_message WAIT = Some ''Missing wait duration''"
| "missing_message SCREENSHOT = None"
| "missing_message NAVBACK = None"
| "missing_message CLOSE = None"

fun is_release :: "call \<Rightarrow> bool" where
  "is_release (ContextClose c) = True"
| "is_release (BrowserClose b) = True"
| "is_release _ = False"

fun on_page :: "call \<Rightarrow> bool" where
  "on_page Uuidv4 = False"
| "on_page Launch = False"
| "on_page (NewContext b) = False"
| "on_page (NewPage c) = False"
| "on_page (ContextClose c) = False"
| "on_page (BrowserClose b) = False"
| "on_page _ = True"

datatype op =
    CreateSession
  | EndSession string
  | GetSession string
  | GetDebugInfo string
  | RunPlaywright string Method "string option"

fun step :: "driver \<Rightarrow> world \<Rightarrow> op \<Rightarrow> world" where
  "step d w CreateSession = snd (createSession d w)"
| "step d w (EndSession i) = snd (endSession d w i)"
| "step d w (GetSession i) = w"
| "step d w (GetDebugInfo i) = snd (getDebugInfo d w i)"
| "step d w (RunPlaywright i m ins) = snd (runPlaywright d w i m ins)"

definition run_ops :: "driver \<Rightarrow> op list \<Rightarrow> world" where
  "run_ops d ops = foldl (step d) init ops"

definition unique_ids :: "driver \<Rightarrow> bool" where
  "unique_ids d = inj (uuidv4 d)"

definition fresh_browsers :: "driver \<Rightarrow> bool" where
  "fresh_browsers d = (\<forall>m n b. launch d m = Inr b \<longrightarrow> launch d n = Inr b \<longrightarrow> m = n)"

definition no_shared_browser :: "world \<Rightarrow> bool" where
  "no_shared_browser w =
     (\<forall>i j a b. sessions w i = Some a \<longrightarrow> sessions w j = Some b \<longrightarrow>
        s_browser a = s_browser b \<longrightarrow> i = j)"

definition keys_generated :: "driver \<Rightarrow> world \<Rightarrow> bool" where
  "keys_generated d w = (\<forall>i a. sessions w i = Some a \<longrightarrow> (\<exists>n<now w. uuidv4 d n = i))"

definition browsers_launched :: "driver \<Rightarrow> world \<Rightarrow> bool" where
  "browsers_launched d w =
     (\<forall>i a. sessions w i = Some a \<longrightarrow> (\<exists>n<now w. launch d n = Inr (s_browser a)))"

definition shrinks :: "world \<Rightarrow> world \<Rightarrow> bool" where
  "shrinks w w' = (sessions w' \<subseteq>\<^sub>m sessions w \<and> now w \<le> now w')"


subsection \<open>Example drivers and worlds\<close>

text \<open>A driver under which every external call succeeds; the \<open>n\<close>-th call returns handle \<open>n\<close>.\<close>

definition ok_driver :: driver where
  "ok_driver =
     \<lparr>uuidv4 = (\<lambda>n. replicate (Suc n) CHR ''s''),
      launch = (\<lambda>n. Inr (Browser n)),
      newContext = (\<lambda>n b. Inr (BrowserContext n)),
      newPage = (\<lambda>n c. Inr (Page n)),
      context_close = (\<lambda>n c. None),
      browser_close = (\<lambda>n b. None),
      page_goto = (\<lambda>n p u. None),
      page_click = (\<lambda>n p s. None),
      page_fill = (\<lambda>n p s t. None),
      page_eval_textContent = (\<lambda>n p s. Inr None),
      page_waitForSelector = (\<lambda>n p s. None),
      page_screenshot = (\<lambda>n p. Inr ''png''),
      page_waitForTimeout = (\<lambda>n p t. None),
      page_goBack = (\<lambda>n p. None)\<rparr>"

text \<open>The world after one successful \<^verbatim>\<open>createSession\<close> from the initial one.\<close>

definition live :: world where
  "live =
     \<lparr>sessions = [''s'' \<mapsto> \<lparr>s_browser = Browser 1, s_context = BrowserContext 2, s_page = Page 3\<rparr>],
      trace = [Uuidv4, Launch, NewContext (Browser 1), NewPage (BrowserContext 2)]\<rparr>"

definition goto_fails :: driver where
  "goto_fails = ok_driver\<lparr>page_goto := (\<lambda>n p u. Some (DriverError ''net::ERR_NAME_NOT_RESOLVED''))\<rparr>"

definition goto_and_close_fail :: driver where
  "goto_and_close_fail =
     goto_fails\<lparr>context_close := (\<lambda>n c. Some (DriverError ''context.close failed''))\<rparr>"

definition close_fails :: driver where
  "close_fails = ok_driver\<lparr>context_close := (\<lambda>n c. Some (DriverError ''context.close failed''))\<rparr>"

definition newContext_fails :: driver where
  "newContext_fails = ok_driver\<lparr>newContext := (\<lambda>n b. Inl (DriverError ''newContext failed''))\<rparr>"

section \<open>Auxiliary lemmas\<close>

lemma shrinks_refl: "shrinks w w"
  by (simp add: shrinks_def)

lemma shrinks_trans: "shrinks w w1 \<Longrightarrow> shrinks w1 w2 \<Longrightarrow> shrinks w w2"
  unfolding shrinks_def by (meson map_le_trans le_trans)

lemma await_break_shrinks: "await_break a c w = (r, w') \<Longrightarrow> shrinks w w'"
  by (auto simp: await_break_def invoke_def now_def shrinks_def split: option.splits)

lemma endSession_shrinks: "endSession d w i = (r, w') \<Longrightarrow> shrinks w w'"
  by (auto simp: endSession_def invoke_def now_def shrinks_def Let_def split: option.splits)

lemma getDebugInfo_shrinks: "getDebugInfo d w i = (r, w') \<Longrightarrow> shrinks w w'"
  by (auto simp: getDebugInfo_def invoke_def now_def shrinks_def split: option.splits sum.splits)

lemma act_shrinks: "act d w p ins = (r, w') \<Longrightarrow> shrinks w w'"
  by (auto simp: act_def Let_def shrinks_refl dest: await_break_shrinks split: if_splits)


lemma try_block_shrinks: "try_block d w i p m ins = (r, w') \<Longrightarrow> shrinks w w'"
proof (cases m)
  case GOTO
  assume "try_block d w i p m ins = (r, w')"
  with GOTO show ?thesis
    by (auto simp: try_block_def shrinks_refl dest: await_break_shrinks split: if_splits option.splits)
next
  case ACT
  assume "try_block d w i p m ins = (r, w')"
  with ACT show ?thesis
    by (auto simp: try_block_def shrinks_refl dest: act_shrinks split: if_splits option.splits)
next
  case EXTRACT
  assume "try_block d w i p m ins = (r, w')"
  with EXTRACT show ?thesis
    by (auto simp: try_block_def shrinks_def invoke_def now_def split: if_splits option.splits sum.splits)
next
  case OBSERVE
  assume "try_block d w i p m ins = (r, w')"
  with OBSERVE show ?thesis
    by (auto simp: try_block_def shrinks_def invoke_def now_def split: if_splits option.splits)
next
  case CLOSE
  assume "try_block d w i p m ins = (r, w')"
  with CLOSE show ?thesis
    by (auto simp: try_block_def dest: endSession_shrinks split: prod.splits sum.splits)
next
  case SCREENSHOT
  assume "try_block d w i p m ins = (r, w')"
  with SCREENSHOT show ?thesis
    by (auto simp: try_block_def shrinks_def invoke_def now_def split: sum.splits)
next
  case WAIT
  assume "try_block d w i p m ins = (r, w')"
  with WAIT show ?thesis
    by (auto simp: try_block_def shrinks_refl dest: await_break_shrinks split: if_splits option.splits)
next
  case NAVBACK
  assume "try_block d w i p m ins = (r, w')"
  with NAVBACK show ?thesis
    by (auto simp: try_block_def dest: await_break_shrinks)
qed

lemma runPlaywright_shrinks:
  assumes "runPlaywright d w i m ins = (r, w')"
  shows "shrinks w w'"
proof (cases "getSession w i")
  case None
  with assms show ?thesis by (simp add: runPlaywright_def shrinks_refl)
next
  case (Some s)
  obtain r1 w1 where t: "try_block d w i (s_page s) m ins = (r1, w1)"
    by (cases "try_block d w i (s_page s) m ins")
  then have s1: "shrinks w w1" by (rule try_block_shrinks)
  show ?thesis
  proof (cases r1)
    case (Inr v)
    with assms Some t s1 show ?thesis by (simp add: runPlaywright_def)
  next
    case (Inl e)
    obtain r2 w2 where e2: "endSession d w1 i = (r2, w2)"
      by (cases "endSession d w1 i")
    then have "shrinks w1 w2" by (rule endSession_shrinks)
    with s1 have "shrinks w w2" by (rule shrinks_trans)
    moreover from assms Some t Inl e2 have "w' = w2"
      by (cases r2) (simp_all add: runPlaywright_def)
    ultimately show ?thesis by simp
  qed
qed

lemma createSession_shape:
  "createSession d w = (r, w') \<Longrightarrow>
     (\<exists>e. r = Inl e \<and> shrinks w w') \<or>
     (\<exists>b c p. r = Inr (uuidv4 d (now w)) \<and> launch d (Suc (now w)) = Inr b
        \<and> newContext d (Suc (Suc (now w))) b = Inr c
        \<and> newPage d (Suc (Suc (Suc (now w)))) c = Inr p
        \<and> w' = w\<lparr>trace := trace w @ [Uuidv4, Launch, NewContext b, NewPage c],
                  sessions := (sessions w)(uuidv4 d (now w) \<mapsto> \<lparr>s_browser = b, s_context = c, s_page = p\<rparr>)\<rparr>)"
  by (auto simp: createSession_def invoke_def now_def shrinks_def Let_def split: sum.splits)

lemma keys_generated_shrinks: "keys_generated d w \<Longrightarrow> shrinks w w' \<Longrightarrow> keys_generated d w'"
  unfolding keys_generated_def shrinks_def map_le_def
  by (metis domI order_less_le_trans)

lemma browsers_launched_shrinks: "browsers_launched d w \<Longrightarrow> shrinks w w' \<Longrightarrow> browsers_launched d w'"
  unfolding browsers_launched_def shrinks_def map_le_def
  by (metis domI order_less_le_trans)

lemma no_shared_browser_shrinks: "no_shared_browser w \<Longrightarrow> shrinks w w' \<Longrightarrow> no_shared_browser w'"
  unfolding no_shared_browser_def shrinks_def map_le_def
  by (metis domI)

lemma live_created: "createSession ok_driver init = (Inr ''s'', live)"
  by (simp add: createSession_def ok_driver_def init_def live_def invoke_def now_def Let_def eval_nat_numeral)

lemma try_block_effect:
  assumes "m \<noteq> CLOSE" and "try_block d w i p m ins = (r, w1)"
  shows "sessions w1 = sessions w \<and> (trace w1 = trace w \<or> (\<exists>c. on_page c \<and> trace w1 = trace w @ [c]))"
proof (cases m)
  case GOTO
  with assms show ?thesis
    by (auto simp: try_block_def await_break_def invoke_def split: if_splits option.splits)
next
  case ACT
  with assms show ?thesis
    by (auto simp: try_block_def act_def await_break_def invoke_def Let_def split: if_splits option.splits)
next
  case EXTRACT
  with assms show ?thesis
    by (auto simp: try_block_def invoke_def split: if_splits option.splits sum.splits)
next
  case OBSERVE
  with assms show ?thesis
    by (auto simp: try_block_def invoke_def split: if_splits option.splits)
next
  case CLOSE
  with assms show ?thesis by simp
next
  case SCREENSHOT
  with assms show ?thesis
    by (auto simp: try_block_def invoke_def split: sum.splits)
next
  case WAIT
  with assms show ?thesis
    by (auto simp: try_block_def await_break_def invoke_def split: if_splits option.splits)
next
  case NAVBACK
  with assms show ?thesis
    by (auto simp: try_block_def await_break_def invoke_def split: option.splits)
qed

lemma endSession_fail_sessions: "endSession d w i = (Inl e, w1) \<Longrightarrow> sessions w1 = sessions w"
  by (auto simp: endSession_def invoke_def Let_def split: option.splits)

lemma try_block_fail_sessions:
  assumes "try_block d w i p m ins = (Inl e, w1)"
  shows "sessions w1 = sessions w"
proof (cases "m = CLOSE")
  case True
  with assms show ?thesis
    by (auto simp: try_block_def dest: endSession_fail_sessions split: prod.splits sum.splits)
next
  case False
  with assms show ?thesis using try_block_effect by blast
qed

lemma endSession_ok:
  assumes "sessions w i = Some s"
    and "context_close d (now w) (s_context s) = None"
    and "browser_close d (Suc (now w)) (s_browser s) = None"
  shows "endSession d w i =
           (Inr (), w\<lparr>trace := trace w @ [ContextClose (s_context s), BrowserClose (s_browser s)],
                      sessions := (sessions w)(i := None)\<rparr>)"
  using assms by (simp add: endSession_def invoke_def now_def Let_def)

lemma step_shape:
  "shrinks w (step d w x)
   \<or> (\<exists>b c p. launch d (Suc (now w)) = Inr b
        \<and> step d w x = w\<lparr>trace := trace w @ [Uuidv4, Launch, NewContext b, NewPage c],
                         sessions := (sessions w)(uuidv4 d (now w) \<mapsto>
                           \<lparr>s_browser = b, s_context = c, s_page = p\<rparr>)\<rparr>)"
proof (cases x)
  case CreateSession
  obtain r w' where c: "createSession d w = (r, w')" by (cases "createSession d w")
  from createSession_shape [OF c] c CreateSession show ?thesis by auto
next
  case (EndSession i)
  obtain r w' where c: "endSession d w i = (r, w')" by (cases "endSession d w i")
  from endSession_shrinks [OF c] c EndSession show ?thesis by simp
next
  case (GetSession i)
  then show ?thesis by (simp add: shrinks_refl)
next
  case (GetDebugInfo i)
  obtain r w' where c: "getDebugInfo d w i = (r, w')" by (cases "getDebugInfo d w i")
  from getDebugInfo_shrinks [OF c] c GetDebugInfo show ?thesis by simp
next
  case (RunPlaywright i m ins)
  obtain r w' where c: "runPlaywright d w i m ins = (r, w')" by (cases "runPlaywright d w i m ins")
  from runPlaywright_shrinks [OF c] c RunPlaywright show ?thesis by simp
qed

lemma keys_generated_step:
  assumes "keys_generated d w"
  shows "keys_generated d (step d w x)"
  using step_shape [of w d x]
proof
  assume "shrinks w (step d w x)"
  with assms show ?thesis by (rule keys_generated_shrinks)
next
  assume "\<exists>b c p. launch d (Suc (now w)) = Inr b
        \<and> step d w x = w\<lparr>trace := trace w @ [Uuidv4, Launch, NewContext b, NewPage c],
                         sessions := (sessions w)(uuidv4 d (now w) \<mapsto>
                           \<lparr>s_browser = b, s_context = c, s_page = p\<rparr>)\<rparr>"
  then obtain b c p where
    eq: "step d w x = w\<lparr>trace := trace w @ [Uuidv4, Launch, NewContext b, NewPage c],
                         sessions := (sessions w)(uuidv4 d (now w) \<mapsto>
                           \<lparr>s_browser = b, s_context = c, s_page = p\<rparr>)\<rparr>"
    by blast
  show ?thesis
    unfolding keys_generated_def
  proof (intro allI impI)
    fix i a
    assume "sessions (step d w x) i = Some a"
    then have "i = uuidv4 d (now w) \<or> sessions w i = Some a"
      by (simp add: eq split: if_splits)
    then show "\<exists>n<now (step d w x). uuidv4 d n = i"
    proof
      assume "i = uuidv4 d (now w)"
      then have "now w < now (step d w x) \<and> uuidv4 d (now w) = i"
        by (simp add: eq now_def)
      then show ?thesis by blast
    next
      assume "sessions w i = Some a"
      with assms obtain n where "n < now w" "uuidv4 d n = i"
        unfolding keys_generated_def by blast
      then have "n < now (step d w x) \<and> uuidv4 d n = i"
        by (simp add: eq now_def)
      then show ?thesis by blast
    qed
  qed
qed

lemma browsers_step:
  assumes "fresh_browsers d" and "browsers_launched d w" and "no_shared_browser w"
  shows "browsers_launched d (step d w x) \<and> no_shared_browser (step d w x)"
  using step_shape [of w d x]
proof
  assume "shrinks w (step d w x)"
  with assms show ?thesis
    by (simp add: browsers_launched_shrinks no_shared_browser_shrinks)
next
  assume "\<exists>b c p. launch d (Suc (now w)) = Inr b
        \<and> step d w x = w\<lparr>trace := trace w @ [Uuidv4, Launch, NewContext b, NewPage c],
                         sessions := (sessions w)(uuidv4 d (now w) \<mapsto>
                           \<lparr>s_browser = b, s_context = c, s_page = p\<rparr>)\<rparr>"
  then obtain b c p where
    l: "launch d (Suc (now w)) = Inr b" and
    eq: "step d w x = w\<lparr>trace := trace w @ [Uuidv4, Launch, NewContext b, NewPage c],
                         sessions := (sessions w)(uuidv4 d (now w) \<mapsto>
                           \<lparr>s_browser = b, s_context = c, s_page = p\<rparr>)\<rparr>"
    by blast
  have old: "s_browser a \<noteq> b" if "sessions w i = Some a" for i a
  proof
    assume same: "s_browser a = b"
    from assms(2) that obtain n where n: "n < now w" "launch d n = Inr (s_browser a)"
      unfolding browsers_launched_def by blast
    with l same assms(1) have "n = Suc (now w)"
      unfolding fresh_browsers_def by blast
    with n show False by simp
  qed
  have "browsers_launched d (step d w x)"
    unfolding browsers_launched_def
  proof (intro allI impI)
    fix i a
    assume "sessions (step d w x) i = Some a"
    then have "s_browser a = b \<or> sessions w i = Some a"
      by (auto simp: eq split: if_splits)
    then show "\<exists>n<now (step d w x). launch d n = Inr (s_browser a)"
    proof
      assume "s_browser a = b"
      with l have "Suc (now w) < now (step d w x) \<and> launch d (Suc (now w)) = Inr (s_browser a)"
        by (simp add: eq now_def)
      then show ?thesis by blast
    next
      assume "sessions w i = Some a"
      with assms(2) obtain n where "n < now w" "launch d n = Inr (s_browser a)"
        unfolding browsers_launched_def by blast
      then have "n < now (step d w x) \<and> launch d n = Inr (s_browser a)"
        by (simp add: eq now_def)
      then show ?thesis by blast
    qed
  qed
  moreover have "no_shared_browser (step d w x)"
    unfolding no_shared_browser_def
  proof (intro allI impI)
    fix i j a a'
    assume i: "sessions (step d w x) i = Some a"
      and j: "sessions (step d w x) j = Some a'"
      and same: "s_browser a = s_browser a'"
    show "i = j"
    proof (cases "i = uuidv4 d (now w)")
      case True
      with i have ab: "s_browser a = b" by (auto simp: eq)
      show ?thesis
      proof (rule ccontr)
        assume "i \<noteq> j"
        with True j have "sessions w j = Some a'" by (simp add: eq)
        from old [OF this] ab same show False by simp
      qed
    next
      case False
      with i have iw: "sessions w i = Some a" by (simp add: eq)
      show ?thesis
      proof (cases "j = uuidv4 d (now w)")
        case True
        with j have "s_browser a' = b" by (auto simp: eq)
        with old [OF iw] same show ?thesis by simp
      next
        case False
        with j have "sessions w j = Some a'" by (simp add: eq)
        with iw same assms(3) show ?thesis
          unfolding no_shared_browser_def by blast
      qed
    qed
  qed
  ultimately show ?thesis by simp
qed

lemma keys_generated_foldl:
  "keys_generated d w \<Longrightarrow> keys_generated d (foldl (step d) w xs)"
  by (induction xs arbitrary: w) (simp_all add: keys_generated_step)

lemma browsers_foldl:
  "fresh_browsers d \<Longrightarrow> browsers_launched d w \<and> no_shared_browser w \<Longrightarrow>
     browsers_launched d (foldl (step d) w xs) \<and> no_shared_browser (foldl (step d) w xs)"
proof (induction xs arbitrary: w)
  case Nil
  then show ?case by simp
next
  case (Cons x xs)
  from Cons.prems have "browsers_launched d (step d w x) \<and> no_shared_browser (step d w x)"
    by (simp add: browsers_step)
  with Cons.prems(1) show ?case by (simp add: Cons.IH)
qed

lemma endSession_on_page:
  "endSession d w i = (r, w') \<Longrightarrow> filter on_page (trace w') = filter on_page (trace w)"
  by (auto simp: endSession_def invoke_def Let_def split: option.splits)

lemma replace_prefix:
  "startsWith p s \<Longrightarrow> js_replace p [] s = drop (length p) s"
  by (cases s) (auto simp: startsWith_def)

lemma replace_click:
  "startsWith ''click'' s \<Longrightarrow> js_replace ''click'' [] s = drop 5 s"
  using replace_prefix [of "''click''" s] by (simp add: eval_nat_numeral)

section \<open>The claims\<close>

text \<open>
  C1 (as amended). For every session id present in the registry and every method, if
  the \<^verbatim>\<open>try\<close> block raises an error \<open>e\<close> (a failing or timed-out primitive, or a
  failed instruction check) and both release calls of the teardown succeed, then the
  \<^verbatim>\<open>catch\<close> runs \<^verbatim>\<open>endSession\<close> once (one \<^verbatim>\<open>context.close\<close>, then one
  \<^verbatim>\<open>browser.close\<close>), \<open>e\<close> is re-raised unchanged, and the session is absent from the
  registry afterwards. For every method but \<^verbatim>\<open>CLOSE\<close> the \<^verbatim>\<open>try\<close> block itself made
  at most one call, on the page, so that this is the only teardown of the run.
\<close>

theorem fail_closed_teardown:
  assumes "sessions w sid = Some s"
    and "try_block d w sid (s_page s) m ins = (Inl e, w1)"
    and "context_close d (now w1) (s_context s) = None"
    and "browser_close d (Suc (now w1)) (s_browser s) = None"
  shows "runPlaywright d w sid m ins =
           (Inl e, w1\<lparr>trace := trace w1 @ [ContextClose (s_context s), BrowserClose (s_browser s)],
                       sessions := (sessions w)(sid := None)\<rparr>)
         \<and> (m \<noteq> CLOSE \<longrightarrow>
              trace w1 = trace w \<or> (\<exists>c. on_page c \<and> trace w1 = trace w @ [c]))"
proof -
  have same: "sessions w1 = sessions w"
    using assms(2) by (rule try_block_fail_sessions)
  with assms(1) have "sessions w1 sid = Some s" by simp
  then have "endSession d w1 sid =
      (Inr (), w1\<lparr>trace := trace w1 @ [ContextClose (s_context s), BrowserClose (s_browser s)],
                  sessions := (sessions w1)(sid := None)\<rparr>)"
    using assms(3,4) by (rule endSession_ok)
  with assms(1,2) same have "runPlaywright d w sid m ins =
           (Inl e, w1\<lparr>trace := trace w1 @ [ContextClose (s_context s), BrowserClose (s_browser s)],
                       sessions := (sessions w)(sid := None)\<rparr>)"
    by (simp add: runPlaywright_def getSession_def)
  moreover have "m \<noteq> CLOSE \<longrightarrow>
              trace w1 = trace w \<or> (\<exists>c. on_page c \<and> trace w1 = trace w @ [c])"
    using assms(2) try_block_effect by blast
  ultimately show ?thesis by simp
qed

theorem fail_closed_teardown_witness:
  "runPlaywright goto_fails live ''s'' GOTO (Some ''http://nowhere.invalid'') =
     (Inl (DriverError ''net::ERR_NAME_NOT_RESOLVED''),
      \<lparr>sessions = Map.empty,
       trace = [Uuidv4, Launch, NewContext (Browser 1), NewPage (BrowserContext 2),
                Goto (Page 3) ''http://nowhere.invalid'',
                ContextClose (BrowserContext 2), BrowserClose (Browser 1)]\<rparr>)"
proof -
  let ?s = "\<lparr>s_browser = Browser 1, s_context = BrowserContext 2, s_page = Page 3\<rparr>"
  let ?w1 = "live\<lparr>trace := trace live @ [Goto (Page 3) ''http://nowhere.invalid'']\<rparr>"
  have h1: "sessions live ''s'' = Some ?s" by (simp add: live_def)
  have h2: "try_block goto_fails live ''s'' (s_page ?s) GOTO (Some ''http://nowhere.invalid'') =
              (Inl (DriverError ''net::ERR_NAME_NOT_RESOLVED''), ?w1)"
    by (simp add: try_block_def falsy_def await_break_def invoke_def goto_fails_def ok_driver_def)
  have h3: "context_close goto_fails (now ?w1) (s_context ?s) = None"
    by (simp add: goto_fails_def ok_driver_def)
  have h4: "browser_close goto_fails (Suc (now ?w1)) (s_browser ?s) = None"
    by (simp add: goto_fails_def ok_driver_def)
  show ?thesis
    using fail_closed_teardown [OF h1 h2 h3 h4] by (simp add: live_def)
qed

text \<open>
  C1 as stated fails when the teardown itself fails: \<^verbatim>\<open>endSession\<close> has no
  \<^verbatim>\<open>try\<close>, so a rejected \<^verbatim>\<open>context.close\<close> replaces the original error and the
  entry stays in the registry.
\<close>

theorem fail_closed_teardown_counterexample:
  "fst (runPlaywright goto_and_close_fail live ''s'' GOTO (Some ''http://nowhere.invalid'')) =
     Inl (DriverError ''context.close failed'')
   \<and> sessions (snd (runPlaywright goto_and_close_fail live ''s'' GOTO (Some ''http://nowhere.invalid''))) ''s'' =
     Some \<lparr>s_browser = Browser 1, s_context = BrowserContext 2, s_page = Page 3\<rparr>"
  by (simp add: runPlaywright_def getSession_def try_block_def falsy_def await_break_def
        endSession_def invoke_def now_def Let_def goto_and_close_fail_def goto_fails_def
        ok_driver_def live_def)

text \<open>
  C2 (as amended). For every live session and every method that checks its instruction
  (\<^verbatim>\<open>GOTO\<close>, \<^verbatim>\<open>ACT\<close>, \<^verbatim>\<open>EXTRACT\<close>, \<^verbatim>\<open>OBSERVE\<close>, \<^verbatim>\<open>WAIT\<close>), a call
  with the instruction omitted throws the method's \<^verbatim>\<open>Error("Missing ...")\<close> before any
  external call is made; the throw is inside the \<^verbatim>\<open>try\<close>, so the \<^verbatim>\<open>catch\<close> then
  runs \<^verbatim>\<open>endSession\<close>: when both release calls succeed, the context and the browser
  are closed, the session is removed from the registry, and the caller receives the
  missing-instruction error.
\<close>

theorem missing_instruction_tears_down:
  assumes "sessions w sid = Some s" and "missing_message m = Some msg"
  shows "try_block d w sid (s_page s) m None = (Inl (Error msg), w)
       \<and> runPlaywright d w sid m None =
           (case endSession d w sid of
              (Inl e2, w2) \<Rightarrow> (Inl e2, w2)
            | (Inr u, w2) \<Rightarrow> (Inl (Error msg), w2))
       \<and> (context_close d (now w) (s_context s) = None \<and>
            browser_close d (Suc (now w)) (s_browser s) = None \<longrightarrow>
            runPlaywright d w sid m None =
              (Inl (Error msg),
               w\<lparr>trace := trace w @ [ContextClose (s_context s), BrowserClose (s_browser s)],
                  sessions := (sessions w)(sid := None)\<rparr>))"
proof -
  have t: "try_block d w sid (s_page s) m None = (Inl (Error msg), w)"
    using assms(2) by (cases m) (simp_all add: try_block_def falsy_def)
  with assms(1) have r: "runPlaywright d w sid m None =
           (case endSession d w sid of
              (Inl e2, w2) \<Rightarrow> (Inl e2, w2)
            | (Inr u, w2) \<Rightarrow> (Inl (Error msg), w2))"
    by (simp add: runPlaywright_def getSession_def)
  have "runPlaywright d w sid m None =
              (Inl (Error msg),
               w\<lparr>trace := trace w @ [ContextClose (s_context s), BrowserClose (s_browser s)],
                  sessions := (sessions w)(sid := None)\<rparr>)"
    if "context_close d (now w) (s_context s) = None"
      and "browser_close d (Suc (now w)) (s_browser s) = None"
    using r endSession_ok [OF assms(1) that] by simp
  with t r show ?thesis by blast
qed

theorem missing_instruction_tears_down_witness:
  "try_block ok_driver live ''s'' (Page 3) EXTRACT None =
     (Inl (Error ''Missing extraction instruction''), live)
   \<and> runPlaywright ok_driver live ''s'' EXTRACT None =
     (Inl (Error ''Missing extraction instruction''),
      \<lparr>sessions = Map.empty,
       trace = [Uuidv4, Launch, NewContext (Browser 1), NewPage (BrowserContext 2),
                ContextClose (BrowserContext 2), BrowserClose (Browser 1)]\<rparr>)"
proof -
  let ?s = "\<lparr>s_browser = Browser 1, s_context = BrowserContext 2, s_page = Page 3\<rparr>"
  have h1: "sessions live ''s'' = Some ?s" by (simp add: live_def)
  have h2: "missing_message EXTRACT = Some ''Missing extraction instruction''" by simp
  have h3: "context_close ok_driver (now live) (s_context ?s) = None
          \<and> browser_close ok_driver (Suc (now live)) (s_browser ?s) = None"
    by (simp add: ok_driver_def)
  have "try_block ok_driver live ''s'' (s_page ?s) EXTRACT None =
          (Inl (Error ''Missing extraction instruction''), live)
      \<and> runPlaywright ok_driver live ''s'' EXTRACT None =
          (Inl (Error ''Missing extraction instruction''),
           live\<lparr>trace := trace live @ [ContextClose (s_context ?s), BrowserClose (s_browser ?s)],
                sessions := (sessions live)(''s'' := None)\<rparr>)"
    using missing_instruction_tears_down [OF h1 h2, of ok_driver] h3 by blast
  then show ?thesis by (simp add: live_def)
qed

text \<open>
  C2 as stated fails: after \<^verbatim>\<open>GOTO\<close> without an instruction the session is no
  longer in the registry, and its context and browser have been closed.
\<close>

theorem missing_instruction_counterexample:
  "sessions live ''s'' = Some \<lparr>s_browser = Browser 1, s_context = BrowserContext 2, s_page = Page 3\<rparr>
   \<and> runPlaywright ok_driver live ''s'' GOTO None =
     (Inl (Error ''Missing URL in instruction''),
      \<lparr>sessions = Map.empty,
       trace = [Uuidv4, Launch, NewContext (Browser 1), NewPage (BrowserContext 2),
                ContextClose (BrowserContext 2), BrowserClose (Browser 1)]\<rparr>)"
  by (simp add: runPlaywright_def getSession_def try_block_def falsy_def
        endSession_def invoke_def now_def Let_def ok_driver_def live_def)

text \<open>
  C3 (as amended). For every session id present in the registry, \<^verbatim>\<open>endSession\<close>
  removes the entry when both \<^verbatim>\<open>context.close\<close> and \<^verbatim>\<open>browser.close\<close> succeed.
  A failing \<^verbatim>\<open>context.close\<close> is thrown to the caller, the browser is not closed and
  the entry stays; a failing \<^verbatim>\<open>browser.close\<close> is thrown to the caller and the entry
  stays.
\<close>

theorem endSession_release_cases:
  assumes "sessions w sid = Some s"
  shows "(context_close d (now w) (s_context s) = Some e \<longrightarrow>
            endSession d w sid = (Inl e, w\<lparr>trace := trace w @ [ContextClose (s_context s)]\<rparr>))
       \<and> (context_close d (now w) (s_context s) = None \<and>
            browser_close d (Suc (now w)) (s_browser s) = Some e \<longrightarrow>
            endSession d w sid =
              (Inl e, w\<lparr>trace := trace w @ [ContextClose (s_context s), BrowserClose (s_browser s)]\<rparr>))
       \<and> (context_close d (now w) (s_context s) = None \<and>
            browser_close d (Suc (now w)) (s_browser s) = None \<longrightarrow>
            endSession d w sid =
              (Inr (), w\<lparr>trace := trace w @ [ContextClose (s_context s), BrowserClose (s_browser s)],
                         sessions := (sessions w)(sid := None)\<rparr>))"
  using assms by (simp add: endSession_def invoke_def now_def Let_def)

theorem endSession_release_cases_witness:
  "endSession ok_driver live ''s'' =
     (Inr (), \<lparr>sessions = Map.empty,
               trace = [Uuidv4, Launch, NewContext (Browser 1), NewPage (BrowserContext 2),
                        ContextClose (BrowserContext 2), BrowserClose (Browser 1)]\<rparr>)
   \<and> endSession (ok_driver\<lparr>browser_close := (\<lambda>n b. Some (DriverError ''browser.close failed''))\<rparr>)
       live ''s'' =
     (Inl (DriverError ''browser.close failed''),
      live\<lparr>trace := trace live @ [ContextClose (BrowserContext 2), BrowserClose (Browser 1)]\<rparr>)"
proof -
  let ?s = "\<lparr>s_browser = Browser 1, s_context = BrowserContext 2, s_page = Page 3\<rparr>"
  let ?d = "ok_driver\<lparr>browser_close := (\<lambda>n b. Some (DriverError ''browser.close failed''))\<rparr>"
  have h: "sessions live ''s'' = Some ?s" by (simp add: live_def)
  have a: "context_close ok_driver (now live) (s_context ?s) = None
         \<and> browser_close ok_driver (Suc (now live)) (s_browser ?s) = None"
    by (simp add: ok_driver_def)
  have b: "context_close ?d (now live) (s_context ?s) = None
         \<and> browser_close ?d (Suc (now live)) (s_browser ?s) = Some (DriverError ''browser.close failed'')"
    by (simp add: ok_driver_def)
  show ?thesis
    using endSession_release_cases [OF h, of ok_driver] a
      endSession_release_cases [OF h, of ?d "DriverError ''browser.close failed''"] b
    by (simp add: live_def)
qed

text \<open>
  C3 as stated fails: when \<^verbatim>\<open>context.close\<close> rejects, \<^verbatim>\<open>endSession\<close> throws
  and the entry is still in the registry.
\<close>

theorem endSession_release_counterexample:
  "fst (endSession close_fails live ''s'') = Inl (DriverError ''context.close failed'')
   \<and> sessions (snd (endSession close_fails live ''s'')) ''s'' =
       Some \<lparr>s_browser = Browser 1, s_context = BrowserContext 2, s_page = Page 3\<rparr>"
  by (simp add: endSession_def close_fails_def ok_driver_def live_def invoke_def now_def Let_def)

text \<open>
  C4. For every session id absent from the registry and every method, the dispatcher
  raises an error (the \<open>TypeError\<close> of destructuring \<^verbatim>\<open>undefined\<close>, which is how this
  code reports a session that is not found) and changes nothing, whereas
  \<^verbatim>\<open>getSession\<close> on the same id returns \<^verbatim>\<open>undefined\<close> without raising.
\<close>

theorem dispatcher_raises_on_absent_session:
  assumes "sessions w sid = None"
  shows "runPlaywright d w sid m ins = (Inl TypeError, w) \<and> getSession w sid = None"
  using assms by (simp add: runPlaywright_def getSession_def)

theorem dispatcher_raises_on_absent_session_witness:
  "sessions live ''t'' = None
   \<and> runPlaywright ok_driver live ''t'' SCREENSHOT None = (Inl TypeError, live)
   \<and> getSession live ''t'' = None"
proof -
  have h: "sessions live ''t'' = None" by (simp add: live_def)
  show ?thesis using h dispatcher_raises_on_absent_session [OF h] by simp
qed

text \<open>
  C5. \<^verbatim>\<open>endSession\<close> on an id absent from the registry returns normally and leaves
  the world unchanged; and once \<^verbatim>\<open>endSession(s)\<close> has returned normally,
  \<^verbatim>\<open>getSession(s)\<close> is \<^verbatim>\<open>undefined\<close> and a second \<^verbatim>\<open>endSession(s)\<close>, under any
  driver, returns normally without any effect.
\<close>

theorem endSession_idempotent:
  "(sessions w sid = None \<longrightarrow> endSession d w sid = (Inr (), w))
   \<and> (endSession d w sid = (Inr (), w') \<longrightarrow>
        getSession w' sid = None \<and> endSession d' w' sid = (Inr (), w'))"
  by (auto simp add: endSession_def getSession_def invoke_def Let_def split: option.splits)

theorem endSession_idempotent_witness:
  "endSession ok_driver init ''s'' = (Inr (), init)
   \<and> getSession (snd (endSession ok_driver live ''s'')) ''s'' = None
   \<and> endSession close_fails (snd (endSession ok_driver live ''s'')) ''s'' =
       (Inr (), snd (endSession ok_driver live ''s''))"
proof -
  have a: "sessions init ''s'' = None" by (simp add: init_def)
  have b: "endSession ok_driver live ''s'' =
             (Inr (), live\<lparr>trace := trace live @ [ContextClose (BrowserContext 2), BrowserClose (Browser 1)],
                           sessions := Map.empty\<rparr>)"
    by (simp add: endSession_def ok_driver_def live_def invoke_def Let_def)
  show ?thesis
    using a b endSession_idempotent [of init "''s''" ok_driver]
      endSession_idempotent [of live "''s''" ok_driver _ close_fails]
    by simp
qed

text \<open>
  C7. If \<^verbatim>\<open>createSession\<close> fails to acquire the browser, the context or the page,
  the driver's error reaches the caller and the registry is left as it was: whenever
  \<^verbatim>\<open>createSession\<close> raises, no entry has been added.
\<close>

theorem createSession_all_or_nothing:
  "(launch d (Suc (now w)) = Inl e \<longrightarrow>
      createSession d w = (Inl e, w\<lparr>trace := trace w @ [Uuidv4, Launch]\<rparr>))
   \<and> (launch d (Suc (now w)) = Inr b \<and> newContext d (Suc (Suc (now w))) b = Inl e \<longrightarrow>
      createSession d w = (Inl e, w\<lparr>trace := trace w @ [Uuidv4, Launch, NewContext b]\<rparr>))
   \<and> (launch d (Suc (now w)) = Inr b \<and> newContext d (Suc (Suc (now w))) b = Inr c
        \<and> newPage d (Suc (Suc (Suc (now w)))) c = Inl e \<longrightarrow>
      createSession d w = (Inl e, w\<lparr>trace := trace w @ [Uuidv4, Launch, NewContext b, NewPage c]\<rparr>))
   \<and> (createSession d w = (Inl e, w') \<longrightarrow> sessions w' = sessions w)"
  by (auto simp add: createSession_def invoke_def now_def Let_def split: sum.splits)

theorem createSession_all_or_nothing_witness:
  "createSession newContext_fails live =
     (Inl (DriverError ''newContext failed''),
      live\<lparr>trace := trace live @ [Uuidv4, Launch, NewContext (Browser 5)]\<rparr>)
   \<and> sessions (live\<lparr>trace := trace live @ [Uuidv4, Launch, NewContext (Browser 5)]\<rparr>) = sessions live"
proof -
  have h: "launch newContext_fails (Suc (now live)) = Inr (Browser 5)
         \<and> newContext newContext_fails (Suc (Suc (now live))) (Browser 5) =
             Inl (DriverError ''newContext failed'')"
    by (simp add: newContext_fails_def ok_driver_def live_def now_def)
  show ?thesis
    using h createSession_all_or_nothing
      [of newContext_fails live "DriverError ''newContext failed''" "Browser 5" _
          "live\<lparr>trace := trace live @ [Uuidv4, Launch, NewContext (Browser 5)]\<rparr>"]
    by simp
qed

text \<open>
  C10. An empty-string instruction is treated exactly like an omitted one: for every
  world, session id and method, the call with \<^verbatim>\<open>""\<close> does what the call with no
  instruction does; and for \<^verbatim>\<open>GOTO\<close>, \<^verbatim>\<open>ACT\<close>, \<^verbatim>\<open>EXTRACT\<close>, \<^verbatim>\<open>OBSERVE\<close>
  and \<^verbatim>\<open>WAIT\<close> the \<^verbatim>\<open>try\<close> block throws the missing-instruction error with no
  external call made, so no primitive receives the empty instruction.
\<close>

theorem empty_instruction_is_missing:
  "runPlaywright d w sid m (Some []) = runPlaywright d w sid m None
   \<and> (missing_message m = Some msg \<longrightarrow>
        try_block d w sid p m (Some []) = (Inl (Error msg), w))"
proof -
  have "try_block d w sid q m (Some []) = try_block d w sid q m None" for q
    by (cases m) (simp_all add: try_block_def falsy_def)
  then have "runPlaywright d w sid m (Some []) = runPlaywright d w sid m None"
    by (simp add: runPlaywright_def split: option.splits)
  moreover have "missing_message m = Some msg \<longrightarrow>
        try_block d w sid p m (Some []) = (Inl (Error msg), w)"
    by (cases m) (simp_all add: try_block_def falsy_def)
  ultimately show ?thesis by simp
qed

theorem empty_instruction_is_missing_witness:
  "runPlaywright ok_driver live ''s'' WAIT (Some '''') = runPlaywright ok_driver live ''s'' WAIT None
   \<and> try_block ok_driver live ''s'' (Page 3) WAIT (Some '''') =
       (Inl (Error ''Missing wait duration''), live)"
proof -
  have h: "missing_message WAIT = Some ''Missing wait duration''" by simp
  show ?thesis
    using h empty_instruction_is_missing
      [of ok_driver live "''s''" WAIT "''Missing wait duration''" "Page 3"]
    by simp
qed

text \<open>
  C6 (as amended). For every live session and every non-empty \<^verbatim>\<open>ACT\<close> instruction:
  when the instruction starts with \<^verbatim>\<open>click\<close>, the dispatcher makes exactly one call
  on the page, a click on the rest of the instruction, trimmed; when it starts with
  \<^verbatim>\<open>type\<close>, exactly one call on the page, a fill whose selector is the second
  space-separated token and whose text is the remaining tokens joined by single spaces;
  any other instruction makes no call at all and the action succeeds with no effect.
\<close>

theorem act_interactions:
  assumes "sessions w sid = Some s" and "ins \<noteq> []"
    and "runPlaywright d w sid ACT (Some ins) = (r, w')"
  shows "(startsWith ''click'' ins \<longrightarrow>
            filter on_page (trace w') =
              filter on_page (trace w) @ [Click (s_page s) (js_trim (drop 5 ins))])
       \<and> (\<not> startsWith ''click'' ins \<and> startsWith ''type'' ins \<longrightarrow>
            filter on_page (trace w') =
              filter on_page (trace w) @
                [Fill (s_page s) (element (js_split CHR '' '' ins) 1)
                   (js_join '' '' (drop 2 (js_split CHR '' '' ins)))])
       \<and> (\<not> startsWith ''click'' ins \<and> \<not> startsWith ''type'' ins \<longrightarrow>
            r = Inr Undefined \<and> w' = w)"
proof -
  obtain r1 w1 where a: "act d w (s_page s) ins = (r1, w1)"
    by (cases "act d w (s_page s) ins")
  with assms(2) have t: "try_block d w sid (s_page s) ACT (Some ins) = (r1, w1)"
    by (simp add: try_block_def falsy_def)
  have after: "filter on_page (trace w') = filter on_page (trace w1)"
  proof (cases r1)
    case (Inr v)
    with assms(1,3) t show ?thesis by (simp add: runPlaywright_def getSession_def)
  next
    case (Inl e)
    obtain r2 w2 where e2: "endSession d w1 sid = (r2, w2)" by (cases "endSession d w1 sid")
    with assms(1,3) t Inl have "w' = w2"
      by (cases r2) (simp_all add: runPlaywright_def getSession_def)
    with endSession_on_page [OF e2] show ?thesis by simp
  qed
  have click: "filter on_page (trace w1) =
      filter on_page (trace w) @ [Click (s_page s) (js_trim (drop 5 ins))]"
    if "startsWith ''click'' ins"
    using a that
    by (auto simp: act_def await_break_def invoke_def Let_def replace_click split: option.splits)
  have fill: "filter on_page (trace w1) =
      filter on_page (trace w) @
        [Fill (s_page s) (element (js_split CHR '' '' ins) 1)
           (js_join '' '' (drop 2 (js_split CHR '' '' ins)))]"
    if "\<not> startsWith ''click'' ins" and "startsWith ''type'' ins"
    using a that
    by (auto simp: act_def await_break_def invoke_def Let_def split: option.splits)
  have none: "r = Inr Undefined \<and> w' = w"
    if "\<not> startsWith ''click'' ins" and "\<not> startsWith ''type'' ins"
  proof -
    from a that have "r1 = Inr Undefined \<and> w1 = w" by (auto simp: act_def)
    with assms(1,3) t show ?thesis by (simp add: runPlaywright_def getSession_def)
  qed
  from after click fill none show ?thesis by simp
qed

theorem act_interactions_witness:
  "runPlaywright ok_driver live ''s'' ACT (Some ''type #q hello big world'') =
     (Inr Undefined, live\<lparr>trace := trace live @ [Fill (Page 3) (Some ''#q'') ''hello big world'']\<rparr>)
   \<and> filter on_page (trace (live\<lparr>trace := trace live @ [Fill (Page 3) (Some ''#q'') ''hello big world'']\<rparr>)) =
       filter on_page (trace live) @
         [Fill (Page 3) (element (js_split CHR '' '' ''type #q hello big world'') 1)
            (js_join '' '' (drop 2 (js_split CHR '' '' ''type #q hello big world'')))]"
proof -
  let ?s = "\<lparr>s_browser = Browser 1, s_context = BrowserContext 2, s_page = Page 3\<rparr>"
  let ?w = "live\<lparr>trace := trace live @ [Fill (Page 3) (Some ''#q'') ''hello big world'']\<rparr>"
  have h1: "sessions live ''s'' = Some ?s" by (simp add: live_def)
  have h2: "''type #q hello big world'' \<noteq> []" by simp
  have h3: "runPlaywright ok_driver live ''s'' ACT (Some ''type #q hello big world'') = (Inr Undefined, ?w)"
    by (simp add: runPlaywright_def getSession_def try_block_def falsy_def act_def startsWith_def
          await_break_def element_def invoke_def Let_def ok_driver_def live_def)
  have h4: "\<not> startsWith ''click'' ''type #q hello big world'' \<and> startsWith ''type'' ''type #q hello big world''"
    by (simp add: startsWith_def)
  show ?thesis
    using h3 h4 act_interactions [OF h1 h2 h3] by simp
qed

text \<open>
  C6 as stated fails: \<^verbatim>\<open>ACT\<close> with an instruction that starts with neither
  \<^verbatim>\<open>click\<close> nor \<^verbatim>\<open>type\<close> returns normally without a single call on the page.
\<close>

theorem act_interactions_counterexample:
  "runPlaywright ok_driver live ''s'' ACT (Some ''hover #menu'') = (Inr Undefined, live)"
  by (simp add: runPlaywright_def getSession_def try_block_def falsy_def act_def startsWith_def
        live_def)

text \<open>
  C8. Let the registry be in any state reached from the empty one by the exported
  operations, and let \<^verbatim>\<open>uuidv4\<close> never return the same id twice. Then for every
  successful run of \<^verbatim>\<open>createSession\<close> returning \<open>s\<close>: \<open>s\<close> is the id just generated
  and is not a key of the registry before the call; and \<^verbatim>\<open>getSession(s)\<close> afterwards
  returns the session made of the browser just launched, the context just created in
  that browser, and the one page just opened in that context.
\<close>

theorem createSession_registers_fresh_session:
  assumes "unique_ids d" and "createSession d (run_ops d ops) = (Inr s, w')"
  shows "s = uuidv4 d (now (run_ops d ops))
       \<and> s \<notin> dom (sessions (run_ops d ops))
       \<and> (\<exists>b c p. launch d (Suc (now (run_ops d ops))) = Inr b
            \<and> newContext d (Suc (Suc (now (run_ops d ops)))) b = Inr c
            \<and> newPage d (Suc (Suc (Suc (now (run_ops d ops))))) c = Inr p
            \<and> getSession w' s = Some \<lparr>s_browser = b, s_context = c, s_page = p\<rparr>
            \<and> trace w' = trace (run_ops d ops) @ [Uuidv4, Launch, NewContext b, NewPage c]
            \<and> (\<forall>i. i \<noteq> s \<longrightarrow> getSession w' i = getSession (run_ops d ops) i))"
proof -
  let ?w = "run_ops d ops"
  have "keys_generated d init" by (simp add: keys_generated_def init_def)
  then have k: "keys_generated d ?w"
    unfolding run_ops_def by (rule keys_generated_foldl)
  from createSession_shape [OF assms(2)]
  obtain b c p where
    s: "s = uuidv4 d (now ?w)" and
    lb: "launch d (Suc (now ?w)) = Inr b" and
    nc: "newContext d (Suc (Suc (now ?w))) b = Inr c" and
    np: "newPage d (Suc (Suc (Suc (now ?w)))) c = Inr p" and
    w': "w' = ?w\<lparr>trace := trace ?w @ [Uuidv4, Launch, NewContext b, NewPage c],
                 sessions := (sessions ?w)(uuidv4 d (now ?w) \<mapsto> \<lparr>s_browser = b, s_context = c, s_page = p\<rparr>)\<rparr>"
    by auto
  have fresh: "s \<notin> dom (sessions ?w)"
  proof
    assume "s \<in> dom (sessions ?w)"
    then obtain a where "sessions ?w s = Some a" by blast
    with k obtain n where n: "n < now ?w" "uuidv4 d n = s"
      unfolding keys_generated_def by blast
    with s assms(1) have "n = now ?w"
      unfolding unique_ids_def by (simp add: inj_eq)
    with n show False by simp
  qed
  have "getSession w' s = Some \<lparr>s_browser = b, s_context = c, s_page = p\<rparr>
      \<and> trace w' = trace ?w @ [Uuidv4, Launch, NewContext b, NewPage c]
      \<and> (\<forall>i. i \<noteq> s \<longrightarrow> getSession w' i = getSession ?w i)"
    by (simp add: w' s getSession_def)
  with s fresh lb nc np show ?thesis by blast
qed

theorem createSession_registers_fresh_session_witness:
  "unique_ids ok_driver
   \<and> fst (createSession ok_driver (run_ops ok_driver [CreateSession, RunPlaywright ''s'' GOTO None])) = Inr ''sssssss''
   \<and> ''sssssss'' \<notin> dom (sessions (run_ops ok_driver [CreateSession, RunPlaywright ''s'' GOTO None]))
   \<and> getSession (snd (createSession ok_driver (run_ops ok_driver [CreateSession, RunPlaywright ''s'' GOTO None]))) ''sssssss''
       = Some \<lparr>s_browser = Browser 7, s_context = BrowserContext 8, s_page = Page 9\<rparr>"
proof -
  let ?ops = "[CreateSession, RunPlaywright ''s'' GOTO None]"
  let ?w = "\<lparr>sessions = Map.empty,
             trace = [Uuidv4, Launch, NewContext (Browser 1), NewPage (BrowserContext 2),
                      ContextClose (BrowserContext 2), BrowserClose (Browser 1)]\<rparr>"
  let ?w' = "\<lparr>sessions = [''sssssss'' \<mapsto> \<lparr>s_browser = Browser 7, s_context = BrowserContext 8, s_page = Page 9\<rparr>],
              trace = [Uuidv4, Launch, NewContext (Browser 1), NewPage (BrowserContext 2),
                       ContextClose (BrowserContext 2), BrowserClose (Browser 1),
                       Uuidv4, Launch, NewContext (Browser 7), NewPage (BrowserContext 8)]\<rparr>"
  have u: "unique_ids ok_driver"
    by (auto simp: unique_ids_def ok_driver_def inj_def dest: arg_cong [where f = length])
  have r: "run_ops ok_driver ?ops = ?w"
    by (simp add: run_ops_def init_def createSession_def runPlaywright_def getSession_def
          try_block_def falsy_def endSession_def invoke_def now_def Let_def ok_driver_def
          eval_nat_numeral)
  have c: "createSession ok_driver (run_ops ok_driver ?ops) = (Inr ''sssssss'', ?w')"
    unfolding r
    by (simp add: createSession_def invoke_def now_def Let_def ok_driver_def eval_nat_numeral)
  from createSession_registers_fresh_session [OF u c]
  have d1: "''sssssss'' \<notin> dom (sessions (run_ops ok_driver ?ops))"
    by blast
  have d2: "getSession ?w' ''sssssss'' =
      Some \<lparr>s_browser = Browser 7, s_context = BrowserContext 8, s_page = Page 9\<rparr>"
    by (simp add: getSession_def)
  from u c d1 d2 show ?thesis by simp
qed

text \<open>
  C9. Let every \<^verbatim>\<open>chromium.launch\<close> return a browser object of its own. Then after
  every sequence of operations from the empty registry (\<^verbatim>\<open>createSession\<close>,
  \<^verbatim>\<open>endSession\<close>, \<^verbatim>\<open>getSession\<close>, \<^verbatim>\<open>getDebugInfo\<close>, and \<^verbatim>\<open>runPlaywright\<close>
  as well), whatever succeeds or fails along the way, the registry holds one entry
  per id (it is a map) and no two entries hold the same browser handle; and every
  browser handle in the registry is one that a \<^verbatim>\<open>launch\<close> returned earlier.
\<close>

theorem registry_invariant:
  assumes "fresh_browsers d"
  shows "no_shared_browser (run_ops d ops) \<and> browsers_launched d (run_ops d ops)"
proof -
  have "browsers_launched d init \<and> no_shared_browser init"
    by (simp add: browsers_launched_def no_shared_browser_def init_def)
  with assms have "browsers_launched d (foldl (step d) init ops)
      \<and> no_shared_browser (foldl (step d) init ops)"
    by (rule browsers_foldl)
  then show ?thesis by (simp add: run_ops_def)
qed

theorem registry_invariant_witness:
  "fresh_browsers ok_driver
   \<and> sessions (run_ops ok_driver [CreateSession, CreateSession, EndSession ''s'', CreateSession]) ''sssss''
       = Some \<lparr>s_browser = Browser 5, s_context = BrowserContext 6, s_page = Page 7\<rparr>
   \<and> sessions (run_ops ok_driver [CreateSession, CreateSession, EndSession ''s'', CreateSession]) ''sssssssssss''
       = Some \<lparr>s_browser = Browser 11, s_context = BrowserContext 12, s_page = Page 13\<rparr>
   \<and> no_shared_browser (run_ops ok_driver [CreateSession, CreateSession, EndSession ''s'', CreateSession])"
proof -
  let ?ops = "[CreateSession, CreateSession, EndSession ''s'', CreateSession]"
  have f: "fresh_browsers ok_driver"
    by (simp add: fresh_browsers_def ok_driver_def)
  have "sessions (run_ops ok_driver ?ops) ''sssss''
       = Some \<lparr>s_browser = Browser 5, s_context = BrowserContext 6, s_page = Page 7\<rparr>
   \<and> sessions (run_ops ok_driver ?ops) ''sssssssssss''
       = Some \<lparr>s_browser = Browser 11, s_context = BrowserContext 12, s_page = Page 13\<rparr>"
    by (simp add: run_ops_def init_def createSession_def endSession_def invoke_def now_def
          Let_def ok_driver_def eval_nat_numeral)
  with f registry_invariant [OF f, of ?ops] show ?thesis by simp
qed

end
